theory Spec2Isabelle
  imports Main "HOL-Library.AList"
begin

section \<open>Python values, types and exceptions\<close>

text \<open>
  The settings engine of \<^verbatim>\<open>toad/settings.py\<close> works on plain Python objects: \<^verbatim>\<open>None\<close>,
  booleans, unbounded integers, strings, lists, and dictionaries keyed by strings
  (\<^verbatim>\<open>dict[str, object]\<close>). A dictionary is an association list: Python dictionaries keep
  insertion order, an assignment to an existing key keeps the key's position and an
  assignment to a new key appends it, which is what \<^const>\<open>AList.update\<close> does.
\<close>

datatype pyval =
    PNone
  | PBool bool
  | PInt int
  | PStr string
  | PList "pyval list"
  | PDict "(string \<times> pyval) list"

type_synonym pydict = "(string \<times> pyval) list"

text \<open>The classes that can be passed as \<^verbatim>\<open>expect_type\<close>.\<close>

datatype pytype = T_object | T_bool | T_int | T_str | T_list | T_dict | T_NoneType

text \<open>\<^verbatim>\<open>isinstance(value, cls)\<close>; \<^verbatim>\<open>bool\<close> is a subclass of \<^verbatim>\<open>int\<close>.\<close>

fun isinstance :: "pyval \<Rightarrow> pytype \<Rightarrow> bool" where
  "isinstance v T_object = True"
| "isinstance (PBool b) T_bool = True"
| "isinstance (PBool b) T_int = True"
| "isinstance (PInt i) T_int = True"
| "isinstance (PStr s) T_str = True"
| "isinstance (PList xs) T_list = True"
| "isinstance (PDict d) T_dict = True"
| "isinstance PNone T_NoneType = True"
| "isinstance v T = False"

text \<open>
  The exceptions of the module (\<^verbatim>\<open>InvalidKey\<close>, \<^verbatim>\<open>InvalidValue\<close>) and the built-in ones its
  statements can raise. \<^verbatim>\<open>InvalidValue\<close> carries the expected type and the value found, which
  the source formats into its message; \<^verbatim>\<open>KeyError\<close> carries the key.
\<close>

datatype error =
    InvalidKey
  | InvalidValue pytype pyval
  | KeyError string
  | AssertionError
  | TypeError

text \<open>\<^verbatim>\<open>d[k]\<close> on a dictionary.\<close>

definition dict_getitem :: "pydict \<Rightarrow> string \<Rightarrow> error + pyval" where
  "dict_getitem d k = (case map_of d k of None \<Rightarrow> Inl (KeyError k) | Some v \<Rightarrow> Inr v)"

section \<open>Dotted keys\<close>

text \<open>
  \<^verbatim>\<open>str.split(sep)\<close> with a one-character separator: the pieces between the separators,
  empty pieces included, so the result of splitting the empty string is \<^verbatim>\<open>['']\<close>.
\<close>

fun py_split :: "char \<Rightarrow> string \<Rightarrow> string list" where
  "py_split sep [] = [[]]"
| "py_split sep (c # cs) =
     (if c = sep then [] # py_split sep cs
      else (case py_split sep cs of [] \<Rightarrow> [[c]] | w # ws \<Rightarrow> (c # w) # ws))"

definition parse_key :: "string \<Rightarrow> string list" where
  "parse_key key = py_split (CHR ''.'') key"

text \<open>
  Modelled from the spec: \<^verbatim>\<open>toad._loop.loop_last\<close> is imported by \<^verbatim>\<open>settings.py\<close> but its
  module is not among the sources. The spec describes the walk as "all but the last" segment
  followed by "the final segment": the iterator yields each value paired with a flag that
  is true for the last value only, and yields nothing for an empty sequence.
\<close>

fun loop_last :: "'a list \<Rightarrow> (bool \<times> 'a) list" where
  "loop_last [] = []"
| "loop_last [x] = [(True, x)]"
| "loop_last (x # y # ys) = (False, x) # loop_last (y # ys)"

section \<open>Key resolution\<close>

text \<open>
  A \<^verbatim>\<open>for\<close> loop whose body can return or raise either leaves the function with a result
  or runs out of items, in which case control reaches the statement after the loop.
\<close>

datatype 'a for_result = Left_function 'a | Fell_through

text \<open>
  The loop of \<^verbatim>\<open>get_setting\<close>. On the last component the value is looked up, checked
  against \<^verbatim>\<open>expect_type\<close> and returned; on any other component the value is looked up,
  asserted to be a dictionary and becomes the new \<^verbatim>\<open>settings\<close>.
\<close>

fun get_setting_loop ::
  "pydict \<Rightarrow> (bool \<times> string) list \<Rightarrow> pytype \<Rightarrow> (error + pyval) for_result" where
  "get_setting_loop settings [] expect_type = Fell_through"
| "get_setting_loop settings ((is_last, key_component) # rest) expect_type =
     (if is_last then
        (case dict_getitem settings key_component of
           Inl e \<Rightarrow> Left_function (Inl e)
         | Inr result \<Rightarrow>
             if \<not> isinstance result expect_type
             then Left_function (Inl (InvalidValue expect_type result))
             else Left_function (Inr result))
      else
        (case dict_getitem settings key_component of
           Inl e \<Rightarrow> Left_function (Inl e)
         | Inr sub_settings \<Rightarrow>
             (case sub_settings of
                PDict d \<Rightarrow> get_setting_loop d rest expect_type
              | _ \<Rightarrow> Left_function (Inl AssertionError))))"

definition get_setting :: "pydict \<Rightarrow> string \<Rightarrow> pytype \<Rightarrow> error + pyval" where
  "get_setting settings key expect_type =
     (case get_setting_loop settings (loop_last (parse_key key)) expect_type of
        Left_function r \<Rightarrow> r
      | Fell_through \<Rightarrow> Inl (KeyError key))"

section \<open>Schema definitions and compiled settings\<close>

text \<open>
  \<^verbatim>\<open>SchemaDict\<close>: \<^verbatim>\<open>key\<close>, \<^verbatim>\<open>title\<close> and \<^verbatim>\<open>type\<close> are required, the other entries may be
  absent (\<^const>\<open>None\<close>). A \<^verbatim>\<open>default\<close> that is present may still be the Python value
  \<^verbatim>\<open>None\<close>.
\<close>

datatype schema_dict =
  SchemaDict
    (sd_key: string)
    (sd_title: string)
    (sd_type: string)
    (sd_help: "string option")
    (sd_default: "pyval option")
    (sd_fields: "schema_dict list option")
    (sd_validate: "pyval list option")

text \<open>The dataclass \<^verbatim>\<open>Setting\<close>; \<^verbatim>\<open>children\<close> is a dictionary or \<^verbatim>\<open>None\<close>.\<close>

datatype setting =
  Setting
    (setting_key: string)
    (setting_title: string)
    (setting_type: string)
    (setting_help: string)
    (setting_default: pyval)
    (setting_validate: "pyval list option")
    (setting_children: "(string \<times> setting) list option")

text \<open>
  A dictionary built by assigning the items in order (a dict comprehension, or a loop of
  \<^verbatim>\<open>d[k] = v\<close>): a repeated key keeps its first position and takes the last value.
\<close>

definition dict_of_items :: "(string \<times> 'v) list \<Rightarrow> (string \<times> 'v) list" where
  "dict_of_items items = foldl (\<lambda>d (k, v). AList.update k v d) [] items"

text \<open>
  The inner function \<^verbatim>\<open>build_settings\<close> of \<^verbatim>\<open>Schema.settings_map\<close>, always called with
  its parameter \<^verbatim>\<open>default\<close> left at \<^verbatim>\<open>None\<close>: \<^verbatim>\<open>schema.get("help") or ""\<close>,
  \<^verbatim>\<open>schema.get("default", default)\<close>, \<^verbatim>\<open>schema.get("validate")\<close>, and for an object the
  children compiled from \<^verbatim>\<open>schema.get("fields", [])\<close> under their qualified names.
\<close>

fun build_settings :: "string \<Rightarrow> schema_dict \<Rightarrow> setting" where
  "build_settings name (SchemaDict k t ty h d fs v) =
     (if ty = ''object'' then
        Setting name t ty
          (case h of None \<Rightarrow> [] | Some x \<Rightarrow> x)
          (case d of None \<Rightarrow> PNone | Some x \<Rightarrow> x)
          v
          (Some (dict_of_items
             (map (\<lambda>f. (sd_key f, build_settings (name @ ''.'' @ sd_key f) f))
                (case fs of None \<Rightarrow> [] | Some xs \<Rightarrow> xs))))
      else
        Setting name t ty
          (case h of None \<Rightarrow> [] | Some x \<Rightarrow> x)
          (case d of None \<Rightarrow> PNone | Some x \<Rightarrow> x)
          v
          None)"

text \<open>
  The generator \<^verbatim>\<open>get_keys\<close> of \<^verbatim>\<open>Schema.keys\<close>: an object whose \<^verbatim>\<open>children\<close> is a
  non-empty dictionary yields the keys of its children in order, every other setting yields
  its own key.
\<close>

fun get_keys :: "setting \<Rightarrow> string list" where
  "get_keys (Setting k t ty h d v ch) =
     (if ty = ''object'' \<and> (case ch of None \<Rightarrow> False | Some cs \<Rightarrow> cs \<noteq> [])
      then concat (map (\<lambda>p. get_keys (snd p)) (case ch of None \<Rightarrow> [] | Some cs \<Rightarrow> cs))
      else [k])"

text \<open>The body of the property \<^verbatim>\<open>settings_map\<close>: one assignment per top-level descriptor.\<close>

definition settings_map_body :: "schema_dict list \<Rightarrow> (string \<times> setting) list" where
  "settings_map_body sch =
     foldl (\<lambda>form_settings sub_schema.
              AList.update (sd_key sub_schema) (build_settings (sd_key sub_schema) sub_schema)
                form_settings)
       [] sch"

text \<open>The list comprehension of the property \<^verbatim>\<open>keys\<close> over a settings map.\<close>

definition keys_body :: "(string \<times> setting) list \<Rightarrow> string list" where
  "keys_body m = concat (map (\<lambda>p. get_keys (snd p)) m)"

section \<open>The class Schema\<close>

text \<open>
  A \<^verbatim>\<open>Schema\<close> instance holds the schema definition. The two properties are declared with
  \<^verbatim>\<open>functools.cached_property\<close>: the first access runs the body and stores the result in
  the instance, every later access returns what is stored. The two slots are fields of the
  instance, empty after \<^verbatim>\<open>__init__\<close>, and an access returns the value with the instance.
\<close>

record Schema =
  schema :: "schema_dict list"
  cached_keys :: "string list option"
  cached_settings_map :: "(string \<times> setting) list option"

definition Schema_init :: "schema_dict list \<Rightarrow> Schema" where
  "Schema_init sch = \<lparr>schema = sch, cached_keys = None, cached_settings_map = None\<rparr>"

definition settings_map :: "Schema \<Rightarrow> (string \<times> setting) list \<times> Schema" where
  "settings_map self =
     (case cached_settings_map self of
        Some m \<Rightarrow> (m, self)
      | None \<Rightarrow>
          (let m = settings_map_body (schema self)
           in (m, self\<lparr>cached_settings_map := Some m\<rparr>)))"

definition keys :: "Schema \<Rightarrow> string list \<times> Schema" where
  "keys self =
     (case cached_keys self of
        Some ks \<Rightarrow> (ks, self)
      | None \<Rightarrow>
          (let (m, self1) = settings_map self;
               ks = keys_body m
           in (ks, self1\<lparr>cached_keys := Some ks\<rparr>)))"

subsection \<open>Defaults\<close>

text \<open>
  The inner function \<^verbatim>\<open>set_defaults\<close> fills the dictionary it is given and is modelled as
  returning it. For an object with a non-empty \<^verbatim>\<open>fields\<close> list a new dictionary is stored
  under the key and then filled by the recursive call; for any other type a default that
  is not \<^verbatim>\<open>None\<close> is stored under the key.
\<close>

fun set_defaults :: "schema_dict list \<Rightarrow> pydict \<Rightarrow> pydict" where
  "set_defaults [] settings = settings"
| "set_defaults (SchemaDict k t ty h d fs v # rest) settings =
     (if ty = ''object'' then
        (case fs of
           Some (f # fs') \<Rightarrow>
             set_defaults rest (AList.update k (PDict (set_defaults (f # fs') [])) settings)
         | _ \<Rightarrow> set_defaults rest settings)
      else
        (case d of
           Some dflt \<Rightarrow>
             if dflt \<noteq> PNone then set_defaults rest (AList.update k dflt settings)
             else set_defaults rest settings
         | None \<Rightarrow> set_defaults rest settings))"

definition defaults :: "Schema \<Rightarrow> pydict" where
  "defaults self = set_defaults (schema self) []"

subsection \<open>Setting a value\<close>

text \<open>
  \<^verbatim>\<open>set_value\<close> starts with \<^verbatim>\<open>schema = self.schema\<close>, the list of descriptors, and tests
  \<^verbatim>\<open>key not in schema\<close> and evaluates \<^verbatim>\<open>schema[key]\<close> on it. Both are operations on the
  Python object, so the schema definition is taken as the Python value it is.
\<close>

fun py_of_schema_dict :: "schema_dict \<Rightarrow> pyval" where
  "py_of_schema_dict (SchemaDict k t ty h d fs v) =
     PDict ([(''key'', PStr k), (''title'', PStr t), (''type'', PStr ty)]
       @ (case h of None \<Rightarrow> [] | Some x \<Rightarrow> [(''help'', PStr x)])
       @ (case d of None \<Rightarrow> [] | Some x \<Rightarrow> [(''default'', x)])
       @ (case fs of None \<Rightarrow> [] | Some xs \<Rightarrow> [(''fields'', PList (map py_of_schema_dict xs))])
       @ (case v of None \<Rightarrow> [] | Some xs \<Rightarrow> [(''validate'', PList xs)]))"

text \<open>\<^verbatim>\<open>needle in haystack\<close> for two strings: the needle occurs at some offset.\<close>

definition is_substring :: "string \<Rightarrow> string \<Rightarrow> bool" where
  "is_substring needle haystack =
     list_ex (\<lambda>i. take (length needle) (drop i haystack) = needle) [0 ..< Suc (length haystack)]"

text \<open>
  \<^verbatim>\<open>key in container\<close> for a string \<^verbatim>\<open>key\<close>: a list contains it when one of its items is
  equal to it (only the same string is), a dictionary when it is one of its keys, a string
  when it is a substring; the other values are not iterable.
\<close>

fun py_contains :: "pyval \<Rightarrow> string \<Rightarrow> error + bool" where
  "py_contains (PList xs) key = Inr (PStr key \<in> set xs)"
| "py_contains (PDict d) key = Inr (key \<in> fst ` set d)"
| "py_contains (PStr s) key = Inr (is_substring key s)"
| "py_contains v key = Inl TypeError"

text \<open>
  \<^verbatim>\<open>container[key]\<close> for a string \<^verbatim>\<open>key\<close>: only a dictionary accepts a string subscript.
\<close>

fun py_getitem :: "pyval \<Rightarrow> string \<Rightarrow> error + pyval" where
  "py_getitem (PDict d) key = dict_getitem d key"
| "py_getitem v key = Inl TypeError"

text \<open>
  The local variable \<^verbatim>\<open>settings\<close> starts as the caller's dictionary. The statement
  \<^verbatim>\<open>settings = settings[key] = {}\<close> assigns the new dictionary to its targets from left to
  right: first to the variable, then to \<^verbatim>\<open>settings[key]\<close>, where \<^verbatim>\<open>settings\<close> is already the
  new dictionary. From then on the variable refers to a dictionary that holds itself under
  \<^verbatim>\<open>key\<close> and that the caller's tree does not contain.
\<close>

datatype fresh_entry = Itself | Object pyval

datatype settings_ref = Callers_dict | Fresh_dict "(string \<times> fresh_entry) list"

text \<open>\<^verbatim>\<open>settings[key] = value\<close>, on the caller's dictionary or on a fresh one.\<close>

fun assign_item :: "pydict \<Rightarrow> settings_ref \<Rightarrow> string \<Rightarrow> pyval \<Rightarrow> pydict \<times> settings_ref" where
  "assign_item root Callers_dict key v = (AList.update key v root, Callers_dict)"
| "assign_item root (Fresh_dict es) key v = (root, Fresh_dict (AList.update key (Object v) es))"

text \<open>\<^verbatim>\<open>key in settings\<close>.\<close>

fun in_settings :: "pydict \<Rightarrow> settings_ref \<Rightarrow> string \<Rightarrow> bool" where
  "in_settings root Callers_dict key = (key \<in> fst ` set root)"
| "in_settings root (Fresh_dict es) key = (key \<in> fst ` set es)"

text \<open>
  The loop of \<^verbatim>\<open>set_value\<close>, with the caller's dictionary passed through and returned
  beside the outcome (\<^verbatim>\<open>None\<close> or the exception raised).
\<close>

fun set_value_loop ::
  "pyval \<Rightarrow> pydict \<Rightarrow> settings_ref \<Rightarrow> (bool \<times> string) list \<Rightarrow> pyval
     \<Rightarrow> (error + unit) \<times> pydict" where
  "set_value_loop sch root cur [] v = (Inr (), root)"
| "set_value_loop sch root cur ((is_last, key) # rest) v =
     (let (root1, cur1) = (if is_last then assign_item root cur key v else (root, cur))
      in case py_contains sch key of
           Inl e \<Rightarrow> (Inl e, root1)
         | Inr False \<Rightarrow> (Inl InvalidKey, root1)
         | Inr True \<Rightarrow>
             (case py_getitem sch key of
                Inl e \<Rightarrow> (Inl e, root1)
              | Inr sch1 \<Rightarrow>
                  if \<not> isinstance sch1 T_dict then (Inl AssertionError, root1)
                  else if \<not> in_settings root1 cur1 key
                       then set_value_loop sch1 root1 (Fresh_dict [(key, Itself)]) rest v
                       else set_value_loop sch1 root1 cur1 rest v))"

definition set_value :: "Schema \<Rightarrow> pydict \<Rightarrow> string \<Rightarrow> pyval \<Rightarrow> (error + unit) \<times> pydict" where
  "set_value self settings key v =
     set_value_loop (PList (map py_of_schema_dict (schema self))) settings Callers_dict
       (loop_last (parse_key key)) v"

section \<open>The class Settings\<close>

text \<open>
  Modelled from the spec: \<^verbatim>\<open>os.path.expandvars\<close> belongs to the Python standard library and
  is not among the sources. The spec describes it as "substituting \<^verbatim>\<open>$NAME\<close>/\<^verbatim>\<open>${NAME}\<close>-style
  references with the current process environment, leaving unresolved names verbatim". The
  process environment is the parameter \<^verbatim>\<open>environ\<close>. A name after \<^verbatim>\<open>$\<close> is the longest
  non-empty run of ASCII letters, digits and underscores; a braced name runs to the next
  \<^verbatim>\<open>}\<close>. A \<^verbatim>\<open>$\<close> that starts no reference (no name follows it, or a \<^verbatim>\<open>{\<close> that is never
  closed) is kept and the scan goes on with the character after it, so a later reference
  is still substituted. The text put in place of a reference is not expanded again.
\<close>

definition is_word_char :: "char \<Rightarrow> bool" where
  "is_word_char c =
     (let n = (of_char c :: nat)
      in (48 \<le> n \<and> n \<le> 57) \<or> (65 \<le> n \<and> n \<le> 90) \<or> n = 95 \<or> (97 \<le> n \<and> n \<le> 122))"

function expandvars :: "(string \<rightharpoonup> string) \<Rightarrow> string \<Rightarrow> string" where
  "expandvars environ [] = []"
| "expandvars environ (c # cs) =
     (if c \<noteq> CHR ''$'' then c # expandvars environ cs
      else if cs \<noteq> [] \<and> hd cs = CHR ''{'' then
        (if dropWhile (\<lambda>x. x \<noteq> CHR ''}'') (tl cs) = [] then c # expandvars environ cs
         else
           (case environ (takeWhile (\<lambda>x. x \<noteq> CHR ''}'') (tl cs)) of
              Some val \<Rightarrow> val @ expandvars environ (tl (dropWhile (\<lambda>x. x \<noteq> CHR ''}'') (tl cs)))
            | None \<Rightarrow>
                c # CHR ''{'' # takeWhile (\<lambda>x. x \<noteq> CHR ''}'') (tl cs)
                  @ CHR ''}'' # expandvars environ (tl (dropWhile (\<lambda>x. x \<noteq> CHR ''}'') (tl cs)))))
      else
        (if takeWhile is_word_char cs = [] then c # expandvars environ cs
         else
           (case environ (takeWhile is_word_char cs) of
              Some val \<Rightarrow> val @ expandvars environ (dropWhile is_word_char cs)
            | None \<Rightarrow> c # takeWhile is_word_char cs @ expandvars environ (dropWhile is_word_char cs))))"
  by pat_completeness auto
termination
proof -
  have after_brace: "length (dropWhile P (tl cs)) - Suc 0 \<le> length cs"
    for P and cs :: string
  proof -
    have "length (dropWhile P (tl cs)) \<le> length (tl cs)"
      by (rule length_dropWhile_le)
    then show ?thesis
      by simp
  qed
  show ?thesis
    by (relation "measure (\<lambda>(environ, s). length s)")
       (auto simp: less_Suc_eq_le length_dropWhile_le after_brace)
qed

text \<open>
  A \<^verbatim>\<open>Settings\<close> instance holds a schema and a values tree. \<^verbatim>\<open>get\<close> resolves the key with
  \<^const>\<open>get_setting\<close> and expands a result that is a string against the environment of
  the moment of the call.
\<close>

record Settings =
  settings_schema :: Schema
  settings_values :: pydict

definition Settings_init :: "Schema \<Rightarrow> pydict \<Rightarrow> Settings" where
  "Settings_init sch settings = \<lparr>settings_schema = sch, settings_values = settings\<rparr>"

definition Settings_get ::
  "(string \<rightharpoonup> string) \<Rightarrow> Settings \<Rightarrow> string \<Rightarrow> pytype \<Rightarrow> error + pyval" where
  "Settings_get environ self key expect_type =
     (case get_setting (settings_values self) key expect_type of
        Inl e \<Rightarrow> Inl e
      | Inr setting \<Rightarrow>
          (case setting of
             PStr s \<Rightarrow> Inr (PStr (expandvars environ s))
           | _ \<Rightarrow> Inr setting))"

section \<open>The schema of the application\<close>

text \<open>The constant \<^verbatim>\<open>SCHEMA\<close> of \<^verbatim>\<open>toad/settings_schema.py\<close>, descriptor by descriptor.\<close>

definition ui_column :: schema_dict where
  "ui_column =
     SchemaDict ''column'' ''Enable column?'' ''boolean''
       (Some ''Enable for a fixed column size. Disable to use the full screen width.'')
       (Some (PBool True)) None None"

definition ui_column_width :: schema_dict where
  "ui_column_width =
     SchemaDict ''column-width'' ''Width of the column'' ''integer''
       (Some ''Width of the column if enabled.'')
       (Some (PInt 100)) None
       (Some [PDict [(''type'', PStr ''minimum''), (''value'', PInt 40)]])"

definition ui_theme :: schema_dict where
  "ui_theme =
     SchemaDict ''theme'' ''Theme'' ''choices''
       (Some ''One of the builtin Textual themes.'')
       (Some (PStr ''dracula'')) None
       (Some [PDict [(''type'', PStr ''choices''),
          (''choices'', PList [PStr ''textual-dark'', PStr ''textual-light'', PStr ''nord'',
             PStr ''gruvbox'', PStr ''catppuccin-mocha'', PStr ''dracula'', PStr ''tokyo-night'',
             PStr ''monokai'', PStr ''flexoki'', PStr ''catppuccin-late'',
             PStr ''solarized-light''])]])"

definition user_name :: schema_dict where
  "user_name =
     SchemaDict ''name'' ''Your name'' ''string'' None (Some (PStr ''$USER'')) None None"

definition user_email :: schema_dict where
  "user_email =
     SchemaDict ''email'' ''Your email'' ''string'' None (Some (PStr [])) None
       (Some [PDict [(''type'', PStr ''is_email'')]])"

definition anthropic_apikey :: schema_dict where
  "anthropic_apikey =
     SchemaDict ''apikey'' ''API Key'' ''string'' (Some ''Your API Key goes here'')
       (Some (PStr ''$ANTHROPIC_API_KEY'')) None None"

definition openai_apikey :: schema_dict where
  "openai_apikey =
     SchemaDict ''apikey'' ''API Key'' ''string'' (Some ''Your API key goes here'')
       (Some (PStr ''$OPENAI_API_KEY'')) None None"

definition SCHEMA :: "schema_dict list" where
  "SCHEMA =
     [SchemaDict ''ui'' ''User interface settings'' ''object''
        (Some ''The following settings allow you to customize the look and feel of the User Interface.'')
        None (Some [ui_column, ui_column_width, ui_theme]) None,
      SchemaDict ''user'' ''User information'' ''object'' (Some ''Your details.'')
        None (Some [user_name, user_email]) None,
      SchemaDict ''accounts'' ''User accounts'' ''object'' (Some ''Account details here'')
        None
        (Some
          [SchemaDict ''anthropic'' ''Anthropic account'' ''object''
             (Some ''Instructions how to get an API Key'') None (Some [anthropic_apikey]) None,
           SchemaDict ''openai'' ''OpenAI account'' ''object''
             (Some ''Instructions how to get an OpenAPI API key'') None (Some [openai_apikey]) None])
        None]"

section \<open>The schema definition as the spec describes it\<close>

text \<open>
  The spec's data model makes two assumptions on a schema definition: a key is unique
  among its siblings, and a key contains no \<^verbatim>\<open>.\<close> (the separator of dotted keys). Both are
  predicates on the descriptor tree, followed through the \<^verbatim>\<open>fields\<close> of objects.
\<close>

fun unique_keys_in :: "schema_dict \<Rightarrow> bool" where
  "unique_keys_in (SchemaDict k t ty h d fs v) =
     (if ty = ''object''
      then distinct (map sd_key (case fs of None \<Rightarrow> [] | Some xs \<Rightarrow> xs))
         \<and> list_all unique_keys_in (case fs of None \<Rightarrow> [] | Some xs \<Rightarrow> xs)
      else True)"

definition unique_keys :: "schema_dict list \<Rightarrow> bool" where
  "unique_keys sch = (distinct (map sd_key sch) \<and> list_all unique_keys_in sch)"

fun dot_free_in :: "schema_dict \<Rightarrow> bool" where
  "dot_free_in (SchemaDict k t ty h d fs v) =
     (CHR ''.'' \<notin> set k
      \<and> (if ty = ''object''
         then list_all dot_free_in (case fs of None \<Rightarrow> [] | Some xs \<Rightarrow> xs)
         else True))"

definition dot_free :: "schema_dict list \<Rightarrow> bool" where
  "dot_free sch = list_all dot_free_in sch"

text \<open>
  The leaves of a schema definition with their fully qualified keys: a descriptor whose type
  is not \<^verbatim>\<open>object\<close> is a leaf, an object contributes the leaves of its fields, depth first
  and in declaration order.
\<close>

fun leaves_under :: "string \<Rightarrow> schema_dict \<Rightarrow> (string \<times> schema_dict) list" where
  "leaves_under name (SchemaDict k t ty h d fs v) =
     (if ty = ''object''
      then concat (map (\<lambda>f. leaves_under (name @ ''.'' @ sd_key f) f)
                     (case fs of None \<Rightarrow> [] | Some xs \<Rightarrow> xs))
      else [(name, SchemaDict k t ty h d fs v)])"

definition schema_leaves :: "schema_dict list \<Rightarrow> (string \<times> schema_dict) list" where
  "schema_leaves sch = concat (map (\<lambda>sd. leaves_under (sd_key sd) sd) sch)"

text \<open>
  The terminal nodes of a schema definition: the leaves and, beside them, the objects that
  have no fields (empty groups), each with its fully qualified key, depth first and in
  declaration order.
\<close>

fun terminal_keys_under :: "string \<Rightarrow> schema_dict \<Rightarrow> string list" where
  "terminal_keys_under name (SchemaDict k t ty h d fs v) =
     (if ty = ''object'' \<and> (case fs of None \<Rightarrow> False | Some xs \<Rightarrow> xs \<noteq> [])
      then concat (map (\<lambda>f. terminal_keys_under (name @ ''.'' @ sd_key f) f)
                     (case fs of None \<Rightarrow> [] | Some xs \<Rightarrow> xs))
      else [name])"

definition terminal_keys :: "schema_dict list \<Rightarrow> string list" where
  "terminal_keys sch = concat (map (\<lambda>sd. terminal_keys_under (sd_key sd) sd) sch)"

text \<open>
  A schema definition without any leaf: an object whose only child is an empty object.
\<close>

definition empty_groups_schema :: "schema_dict list" where
  "empty_groups_schema =
     [SchemaDict ''outer'' ''Outer group'' ''object'' None None
        (Some [SchemaDict ''inner'' ''Inner group'' ''object'' None None (Some []) None])
        None]"

section \<open>Notions used in the proofs\<close>

text \<open>
  What \<^const>\<open>set_defaults\<close> assigns for one descriptor: the key with a nested dictionary for
  an object with a non-empty \<^verbatim>\<open>fields\<close> list, the key with the default for another type
  whose default is not \<^verbatim>\<open>None\<close>, and nothing otherwise.
\<close>

fun default_entry :: "schema_dict \<Rightarrow> (string \<times> pyval) option" where
  "default_entry (SchemaDict k t ty h d fs v) =
     (if ty = ''object'' then
        (case fs of
           Some (f # fs') \<Rightarrow> Some (k, PDict (set_defaults (f # fs') []))
         | _ \<Rightarrow> None)
      else
        (case d of
           Some dflt \<Rightarrow> if dflt \<noteq> PNone then Some (k, dflt) else None
         | None \<Rightarrow> None))"

text \<open>
  Among the descriptors of a list that declare the key \<^verbatim>\<open>k\<close>, the last one: it is the one
  whose assignment to a dictionary under \<^verbatim>\<open>k\<close> remains.
\<close>

definition effective :: "schema_dict list \<Rightarrow> string \<Rightarrow> schema_dict option" where
  "effective sch k = map_of (rev (map (\<lambda>sd. (sd_key sd, sd)) sch)) k"

text \<open>The key \<^verbatim>\<open>name.k1.k2...\<close> made by qualifying \<^verbatim>\<open>name\<close> with a path of local keys.\<close>

definition dotted :: "string \<Rightarrow> string list \<Rightarrow> string" where
  "dotted name p = name @ concat (map (\<lambda>k. CHR ''.'' # k) p)"

text \<open>The outcomes of a lookup that found a value or missed a key.\<close>

definition found_or_missing :: "(error + pyval) for_result \<Rightarrow> bool" where
  "found_or_missing r =
     (case r of
        Left_function (Inr v) \<Rightarrow> True
      | Left_function (Inl (KeyError k)) \<Rightarrow> True
      | _ \<Rightarrow> False)"

section \<open>Splitting keys and walking the loop\<close>

lemma py_split_not_Nil: "py_split sep s \<noteq> []"
  by (induction s) (auto split: list.splits)

lemma parse_key_not_Nil: "parse_key key \<noteq> []"
  by (simp add: parse_key_def py_split_not_Nil)

lemma get_setting_loop_loop_last:
  "xs \<noteq> [] \<Longrightarrow> \<exists>r. get_setting_loop settings (loop_last xs) expect_type = Left_function r"
  by (induction xs arbitrary: settings rule: loop_last.induct)
     (auto split: sum.splits pyval.splits)

lemma dotted_Nil: "dotted name [] = name"
  by (simp add: dotted_def)

lemma dotted_Cons: "dotted name (k # p) = dotted (name @ ''.'' @ k) p"
  by (simp add: dotted_def)

lemma py_split_append:
  "py_split sep (a @ sep # b) = py_split sep a @ py_split sep b"
proof (induction a)
  case Nil
  show ?case by simp
next
  case (Cons c a)
  obtain w ws where "py_split sep a = w # ws"
    using py_split_not_Nil [of sep a] by (cases "py_split sep a") auto
  with Cons show ?case by simp
qed

lemma py_split_sep_free: "sep \<notin> set k \<Longrightarrow> py_split sep k = [k]"
  by (induction k) auto

lemma py_split_dotted:
  "CHR ''.'' \<notin> set name \<Longrightarrow> \<forall>k \<in> set p. CHR ''.'' \<notin> set k
     \<Longrightarrow> py_split (CHR ''.'') (dotted name p) = name # p"
proof (induction p arbitrary: name rule: rev_induct)
  case Nil
  then show ?case by (simp add: dotted_def py_split_sep_free)
next
  case (snoc k p)
  have "dotted name (p @ [k]) = dotted name p @ CHR ''.'' # k"
    by (simp add: dotted_def)
  with snoc show ?case
    by (simp add: py_split_append py_split_sep_free)
qed

lemma parse_key_dotted:
  "CHR ''.'' \<notin> set name \<Longrightarrow> \<forall>k \<in> set p. CHR ''.'' \<notin> set k
     \<Longrightarrow> parse_key (dotted name p) = name # p"
  by (simp add: parse_key_def py_split_dotted)

text \<open>
  C10. In \<^verbatim>\<open>get_setting\<close>, splitting any key on \<^verbatim>\<open>.\<close> gives at least one component, so
  the loop leaves the function (by \<^verbatim>\<open>return\<close> or by an exception) and its result is the
  result of \<^verbatim>\<open>get_setting\<close>: the \<^verbatim>\<open>raise KeyError(key)\<close> after the loop is never reached.
\<close>

theorem get_setting_trailing_raise_unreachable:
  "parse_key key \<noteq> [] \<and>
   (\<exists>r. get_setting_loop settings (loop_last (parse_key key)) expect_type = Left_function r
        \<and> get_setting settings key expect_type = r)"
proof -
  from get_setting_loop_loop_last [OF parse_key_not_Nil]
  obtain r where
    "get_setting_loop settings (loop_last (parse_key key)) expect_type = Left_function r"
    by blast
  then show ?thesis
    using parse_key_not_Nil by (simp add: get_setting_def)
qed

section \<open>Dictionaries built by assignment\<close>

lemma update_new_key: "k \<notin> fst ` set al \<Longrightarrow> AList.update k v al = al @ [(k, v)]"
  by (induction al) auto

lemma foldl_update_distinct:
  "distinct (map fst (acc @ items))
     \<Longrightarrow> foldl (\<lambda>d (k, v). AList.update k v d) acc items = acc @ items"
proof (induction items arbitrary: acc)
  case Nil
  show ?case by simp
next
  case (Cons x items)
  obtain k v where x: "x = (k, v)" by (cases x)
  from Cons.prems x have "k \<notin> fst ` set acc" by auto
  then have "AList.update k v acc = acc @ [(k, v)]" by (rule update_new_key)
  moreover from Cons.prems x have "distinct (map fst ((acc @ [(k, v)]) @ items))" by simp
  ultimately show ?case
    using Cons.IH [of "acc @ [(k, v)]"] x by simp
qed

lemma dict_of_items_distinct: "distinct (map fst items) \<Longrightarrow> dict_of_items items = items"
  using foldl_update_distinct [of "[]" items] by (simp add: dict_of_items_def)

lemma map_of_foldl_update:
  "map_of (foldl (\<lambda>d (k, v). AList.update k v d) acc items) = map_of acc ++ map_of (rev items)"
proof (induction items arbitrary: acc)
  case Nil
  show ?case by simp
next
  case (Cons x items)
  obtain k v where x: "x = (k, v)" by (cases x)
  have "map_of (AList.update k v acc) ++ map_of (rev items)
      = map_of acc ++ map_of (rev items @ [(k, v)])"
    by (rule ext) (auto simp: update_conv' map_add_def split: option.splits)
  with Cons.IH [of "AList.update k v acc"] x show ?case
    by simp
qed

lemma distinct_foldl_update:
  "distinct (map fst acc) \<Longrightarrow> distinct (map fst (foldl (\<lambda>d (k, v). AList.update k v d) acc items))"
  by (induction items arbitrary: acc) (auto simp: distinct_update)

lemma dict_of_items_mem:
  "(k, v) \<in> set (dict_of_items items) \<Longrightarrow> map_of (rev items) k = Some v"
proof -
  assume mem: "(k, v) \<in> set (dict_of_items items)"
  have "distinct (map fst (dict_of_items items))"
    unfolding dict_of_items_def by (rule distinct_foldl_update) simp
  with mem have "map_of (dict_of_items items) k = Some v"
    by simp
  then show ?thesis
    by (simp add: dict_of_items_def map_of_foldl_update)
qed

section \<open>What the defaults hold under a key\<close>

lemma default_entry_key: "default_entry sd = Some (k, v) \<Longrightarrow> k = sd_key sd"
  by (cases sd) (auto split: if_splits option.splits list.splits)

lemma set_defaults_Cons:
  "set_defaults (sd # rest) acc =
     set_defaults rest (case default_entry sd of None \<Rightarrow> acc | Some (k, v) \<Rightarrow> AList.update k v acc)"
  by (cases sd) (auto split: option.splits list.splits)

lemma set_defaults_append:
  "set_defaults (xs @ ys) acc = set_defaults ys (set_defaults xs acc)"
proof (induction xs arbitrary: acc)
  case Nil
  show ?case by simp
next
  case (Cons x xs)
  show ?case
    unfolding append_Cons set_defaults_Cons by (rule Cons.IH)
qed

lemma set_defaults_snoc:
  "set_defaults (xs @ [sd]) acc =
     (case default_entry sd of
        None \<Rightarrow> set_defaults xs acc
      | Some (k, v) \<Rightarrow> AList.update k v (set_defaults xs acc))"
  by (simp only: set_defaults_append set_defaults_Cons set_defaults.simps(1))

lemma effective_snoc:
  "effective (xs @ [sd]) k = (if sd_key sd = k then Some sd else effective xs k)"
  by (simp add: effective_def)

lemma effective_key: "effective sch k = Some sd \<Longrightarrow> sd_key sd = k"
  unfolding effective_def by (auto dest!: map_of_SomeD)

lemma effective_mem: "effective sch k = Some sd \<Longrightarrow> sd \<in> set sch"
  unfolding effective_def by (auto dest!: map_of_SomeD)

lemma effective_distinct:
  "distinct (map sd_key sch) \<Longrightarrow> sd \<in> set sch \<Longrightarrow> effective sch (sd_key sd) = Some sd"
  unfolding effective_def
  by (rule map_of_is_SomeI) (auto simp: rev_map [symmetric] comp_def)

lemma map_of_set_defaults_effective:
  "effective sch k = Some sd \<Longrightarrow> default_entry sd = Some (k', v)
     \<Longrightarrow> map_of (set_defaults sch acc) k = Some v"
proof (induction sch arbitrary: acc rule: rev_induct)
  case Nil
  then show ?case by (simp add: effective_def)
next
  case (snoc x xs)
  show ?case
  proof (cases "sd_key x = k")
    case True
    with snoc.prems have "x = sd" by (simp add: effective_snoc)
    with snoc.prems True default_entry_key [of sd k' v] show ?thesis
      by (simp add: set_defaults_snoc update_conv')
  next
    case False
    with snoc.prems have "effective xs k = Some sd" by (simp add: effective_snoc)
    then have "map_of (set_defaults xs acc) k = Some v"
      using snoc.prems(2) by (rule snoc.IH)
    with False show ?thesis
      by (auto simp: set_defaults_snoc update_conv' split: option.splits
               dest: default_entry_key)
  qed
qed

lemma map_of_set_defaults_unassigned:
  "\<forall>sd \<in> set sch. sd_key sd = k \<longrightarrow> default_entry sd = None
     \<Longrightarrow> map_of (set_defaults sch acc) k = map_of acc k"
proof (induction sch arbitrary: acc)
  case Nil
  show ?case by simp
next
  case (Cons x xs)
  then show ?case
    by (auto simp: set_defaults_Cons update_conv' split: option.splits
             dest: default_entry_key)
qed

lemma get_setting_loop_descend:
  "map_of settings k = Some (PDict sub)
     \<Longrightarrow> get_setting_loop settings (loop_last (k # k2 # p)) T
         = get_setting_loop sub (loop_last (k2 # p)) T"
  by (simp add: dict_getitem_def)

lemma get_setting_loop_last:
  "map_of settings k = Some v \<Longrightarrow> isinstance v T
     \<Longrightarrow> get_setting_loop settings (loop_last [k]) T = Left_function (Inr v)"
  by (simp add: dict_getitem_def)

lemma get_setting_loop_last_object:
  "found_or_missing (get_setting_loop settings (loop_last [k]) T_object)"
  by (simp add: found_or_missing_def dict_getitem_def split: option.splits)

section \<open>The settings map and the keys\<close>

lemma settings_map_body_items:
  "settings_map_body sch =
     dict_of_items (map (\<lambda>sd. (sd_key sd, build_settings (sd_key sd) sd)) sch)"
  by (simp add: settings_map_body_def dict_of_items_def foldl_map)

lemma get_keys_build_settings:
  "unique_keys_in sd \<Longrightarrow> get_keys (build_settings name sd) = terminal_keys_under name sd"
proof (induction name sd rule: build_settings.induct)
  case (1 name k t ty h d fs v)
  show ?case
  proof (cases "ty = ''object''")
    case False
    then show ?thesis by simp
  next
    case True
    define xs where "xs = (case fs of None \<Rightarrow> [] | Some ys \<Rightarrow> ys)"
    from "1.prems" True have dist: "distinct (map sd_key xs)" and all: "list_all unique_keys_in xs"
      by (simp_all add: xs_def)
    have items: "dict_of_items (map (\<lambda>f. (sd_key f, build_settings (name @ ''.'' @ sd_key f) f)) xs)
        = map (\<lambda>f. (sd_key f, build_settings (name @ ''.'' @ sd_key f) f)) xs"
      using dist by (intro dict_of_items_distinct) (simp add: comp_def)
    have IH: "get_keys (build_settings (name @ ''.'' @ sd_key f) f)
        = terminal_keys_under (name @ ''.'' @ sd_key f) f" if "f \<in> set xs" for f
      using "1.IH" [OF True, of f] that all by (simp add: xs_def list_all_iff)
    have "map (\<lambda>f. get_keys (build_settings (name @ ''.'' @ sd_key f) f)) xs
        = map (\<lambda>f. terminal_keys_under (name @ ''.'' @ sd_key f) f) xs"
      using IH by simp
    then have "concat (map (\<lambda>f. get_keys (build_settings (name @ ''.'' @ sd_key f) f)) xs)
        = concat (map (\<lambda>f. terminal_keys_under (name @ ''.'' @ sd_key f) f) xs)"
      by (rule arg_cong)
    then show ?thesis
      using True items
      by (cases fs) (simp_all add: xs_def comp_def)
  qed
qed

lemma map_of_keyed:
  "map_of (map (\<lambda>f. (sd_key f, g f)) xs) k = map_option g (map_of (map (\<lambda>f. (sd_key f, f)) xs) k)"
  by (induction xs) auto

lemma built_child_effective:
  assumes "(ck, child) \<in> set (dict_of_items (map (\<lambda>f. (sd_key f, g f)) xs))"
  shows "\<exists>f. effective xs ck = Some f \<and> child = g f"
proof -
  from assms have "map_of (rev (map (\<lambda>f. (sd_key f, g f)) xs)) ck = Some child"
    by (rule dict_of_items_mem)
  then have "map_of (map (\<lambda>f. (sd_key f, g f)) (rev xs)) ck = Some child"
    by (simp only: rev_map)
  with map_of_keyed [of g "rev xs" ck]
  have "map_option g (map_of (map (\<lambda>f. (sd_key f, f)) (rev xs)) ck) = Some child"
    by (rule subst)
  then obtain f where "map_of (map (\<lambda>f. (sd_key f, f)) (rev xs)) ck = Some f" and "child = g f"
    by (cases "map_of (map (\<lambda>f. (sd_key f, f)) (rev xs)) ck") auto
  then show ?thesis
    unfolding effective_def by (simp only: rev_map) blast
qed

lemma leaf_lookup:
  "unique_keys sch \<Longrightarrow> sd \<in> set sch \<Longrightarrow> dot_free_in sd
     \<Longrightarrow> (key, leaf) \<in> set (leaves_under name sd)
     \<Longrightarrow> sd_default leaf = Some dflt \<Longrightarrow> dflt \<noteq> PNone \<Longrightarrow> isinstance dflt T
     \<Longrightarrow> \<exists>p. key = dotted name p \<and> (\<forall>x \<in> set p. CHR ''.'' \<notin> set x)
           \<and> get_setting_loop (set_defaults sch acc) (loop_last (sd_key sd # p)) T
               = Left_function (Inr dflt)"
proof (induction name sd arbitrary: sch acc rule: leaves_under.induct)
  case (1 name k t ty h d fs v)
  let ?sd = "SchemaDict k t ty h d fs v"
  from "1.prems"(1,2) have eff: "effective sch k = Some ?sd"
    using effective_distinct [of sch ?sd] by (simp add: unique_keys_def)
  show ?case
  proof (cases "ty = ''object''")
    case False
    with "1.prems"(4) have key: "key = name" and leaf: "leaf = ?sd"
      by simp_all
    from leaf "1.prems"(5,6) False have "default_entry ?sd = Some (k, dflt)"
      by simp
    with eff have "map_of (set_defaults sch acc) k = Some dflt"
      by (rule map_of_set_defaults_effective)
    then have "get_setting_loop (set_defaults sch acc) (loop_last [k]) T = Left_function (Inr dflt)"
      using "1.prems"(7) by (rule get_setting_loop_last)
    with key show ?thesis
      by (intro exI [of _ "[]"]) (simp add: dotted_Nil)
  next
    case True
    define xs where "xs = (case fs of None \<Rightarrow> [] | Some ys \<Rightarrow> ys)"
    from "1.prems"(4) True obtain f where f: "f \<in> set xs"
      and mem: "(key, leaf) \<in> set (leaves_under (name @ ''.'' @ sd_key f) f)"
      by (auto simp: xs_def)
    from f obtain y ys where fs: "fs = Some (y # ys)" and xs: "xs = y # ys"
      by (cases fs; cases xs) (auto simp: xs_def)
    from "1.prems"(2) True have "unique_keys_in ?sd"
      using "1.prems"(1) by (auto simp: unique_keys_def list_all_iff)
    with True have uniq: "unique_keys xs"
      by (simp add: unique_keys_def xs_def)
    from "1.prems"(3) True f have dff: "dot_free_in f"
      by (simp add: xs_def list_all_iff)
    then have nodot: "CHR ''.'' \<notin> set (sd_key f)"
      by (cases f) simp
    from "1.IH" [OF True _ uniq f dff mem "1.prems"(5,6,7), of "[]"] f
    obtain p where p: "key = dotted (name @ ''.'' @ sd_key f) p"
      and pfree: "\<forall>x \<in> set p. CHR ''.'' \<notin> set x"
      and inner: "get_setting_loop (set_defaults xs []) (loop_last (sd_key f # p)) T
          = Left_function (Inr dflt)"
      by (auto simp: xs_def)
    have "default_entry ?sd = Some (k, PDict (set_defaults xs []))"
      using True fs xs by simp
    with eff have "map_of (set_defaults sch acc) k = Some (PDict (set_defaults xs []))"
      by (rule map_of_set_defaults_effective)
    then have "get_setting_loop (set_defaults sch acc) (loop_last (k # sd_key f # p)) T
        = Left_function (Inr dflt)"
      using inner by (simp only: get_setting_loop_descend)
    with p pfree nodot show ?thesis
      by (intro exI [of _ "sd_key f # p"]) (simp add: dotted_Cons)
  qed
qed

lemma key_lookup:
  "k \<in> set (get_keys (build_settings name sd)) \<Longrightarrow> dot_free_in sd
     \<Longrightarrow> \<exists>p. k = dotted name p \<and> (\<forall>x \<in> set p. CHR ''.'' \<notin> set x)
           \<and> (\<forall>sch acc. effective sch (sd_key sd) = Some sd \<longrightarrow>
                found_or_missing
                  (get_setting_loop (set_defaults sch acc) (loop_last (sd_key sd # p)) T_object))"
proof (induction name sd arbitrary: k rule: build_settings.induct)
  case (1 name key t ty h d fs v)
  let ?sd = "SchemaDict key t ty h d fs v"
  define xs where "xs = (case fs of None \<Rightarrow> [] | Some ys \<Rightarrow> ys)"
  define items where
    "items = dict_of_items (map (\<lambda>f. (sd_key f, build_settings (name @ ''.'' @ sd_key f) f)) xs)"
  show ?case
  proof (cases "ty = ''object'' \<and> items \<noteq> []")
    case False
    with "1.prems"(1) have "k = name"
      by (auto simp: items_def xs_def split: if_splits)
    moreover have "found_or_missing
        (get_setting_loop (set_defaults sch acc) (loop_last [key]) T_object)" for sch acc
      by (rule get_setting_loop_last_object)
    ultimately show ?thesis
      by (intro exI [of _ "[]"]) (simp add: dotted_Nil del: loop_last.simps get_setting_loop.simps)
  next
    case True
    then have obj: "ty = ''object''" and ne: "items \<noteq> []"
      by simp_all
    from "1.prems"(1) obj ne obtain ck child where mem: "(ck, child) \<in> set items"
      and kin: "k \<in> set (get_keys child)"
      by (auto simp: items_def xs_def)
    from mem obtain f where eff: "effective xs ck = Some f"
      and child: "child = build_settings (name @ ''.'' @ sd_key f) f"
      unfolding items_def
    using built_child_effective
      [of ck child "\<lambda>f. build_settings (name @ ''.'' @ sd_key f) f" xs] by blast
    from eff have f: "f \<in> set xs" and ck: "sd_key f = ck"
      by (simp_all add: effective_mem effective_key)
    from f obtain y ys where fs: "fs = Some (y # ys)" and xs: "xs = y # ys"
      by (cases fs; cases xs) (auto simp: xs_def)
    from "1.prems"(2) obj f have dff: "dot_free_in f"
      by (simp add: xs_def list_all_iff)
    then have nodot: "CHR ''.'' \<notin> set (sd_key f)"
      by (cases f) simp
    from kin child have "k \<in> set (get_keys (build_settings (name @ ''.'' @ sd_key f) f))"
      by simp
    from "1.IH" [OF obj _ this dff] f
    obtain p where p: "k = dotted (name @ ''.'' @ sd_key f) p"
      and pfree: "\<forall>x \<in> set p. CHR ''.'' \<notin> set x"
      and inner: "\<And>sch acc. effective sch (sd_key f) = Some f \<Longrightarrow>
          found_or_missing
            (get_setting_loop (set_defaults sch acc) (loop_last (sd_key f # p)) T_object)"
      by (auto simp: xs_def)
    have entry: "default_entry ?sd = Some (key, PDict (set_defaults xs []))"
      using obj fs xs by simp
    have outer: "found_or_missing
        (get_setting_loop (set_defaults sch acc) (loop_last (key # sd_key f # p)) T_object)"
      if "effective sch key = Some ?sd" for sch acc
    proof -
      from that entry have "map_of (set_defaults sch acc) key = Some (PDict (set_defaults xs []))"
        by (rule map_of_set_defaults_effective)
      then have "get_setting_loop (set_defaults sch acc) (loop_last (key # sd_key f # p)) T_object
          = get_setting_loop (set_defaults xs []) (loop_last (sd_key f # p)) T_object"
        by (rule get_setting_loop_descend)
      with inner [of xs "[]"] eff ck show ?thesis
        by simp
    qed
    from p pfree nodot outer show ?thesis
      by (intro exI [of _ "sd_key f # p"]) (simp add: dotted_Cons)
  qed
qed

section \<open>Evaluating the application's schema\<close>

lemmas SCHEMA_defs =
  SCHEMA_def ui_column_def ui_column_width_def ui_theme_def user_name_def user_email_def
  anthropic_apikey_def openai_apikey_def

lemma unique_keys_SCHEMA: "unique_keys SCHEMA"
  by (simp add: unique_keys_def SCHEMA_defs)

lemma dot_free_SCHEMA: "dot_free SCHEMA"
  by (simp add: dot_free_def SCHEMA_defs)

lemma keys_SCHEMA:
  "fst (keys (Schema_init SCHEMA)) =
     [''ui.column'', ''ui.column-width'', ''ui.theme'', ''user.name'', ''user.email'',
      ''accounts.anthropic.apikey'', ''accounts.openai.apikey'']"
  by (simp add: keys_def settings_map_def Schema_init_def Let_def settings_map_body_def
      keys_body_def dict_of_items_def SCHEMA_defs)

section \<open>Setting a value never gets past the first component\<close>

text \<open>
  The items of \<^verbatim>\<open>self.schema\<close> are dictionaries, so no string is an item of the list and
  the test \<^verbatim>\<open>key not in schema\<close> succeeds on the first component of every key: every call
  raises \<^verbatim>\<open>InvalidKey\<close>. When the key has a single component, the assignment
  \<^verbatim>\<open>settings[key] = value\<close> has already been made by then.
\<close>

lemma py_of_schema_dict_not_str: "py_of_schema_dict sd \<noteq> PStr k"
  by (cases sd) simp

lemma str_not_in_schema_list: "PStr k \<notin> py_of_schema_dict ` set sch"
  by (auto simp: py_of_schema_dict_not_str [symmetric])

lemma set_value_always_InvalidKey:
  "set_value self settings key v =
     (Inl InvalidKey,
      case parse_key key of [k] \<Rightarrow> AList.update k v settings | _ \<Rightarrow> settings)"
proof (cases "parse_key key")
  case Nil
  with parse_key_not_Nil show ?thesis by simp
next
  case (Cons k ks)
  then show ?thesis
    by (cases ks) (simp_all add: set_value_def str_not_in_schema_list)
qed

section \<open>The claims\<close>

text \<open>
  C1. For every schema and every dotted key present in the schema, \<^verbatim>\<open>set_value\<close> followed by
  \<^verbatim>\<open>get_setting\<close> with the same key returns the value just set. The code does not do this:
  on the application's schema and its defaults, setting \<^verbatim>\<open>ui.column\<close> to \<^verbatim>\<open>False\<close> raises
  \<^verbatim>\<open>InvalidKey\<close> and leaves the tree as it was, and \<^verbatim>\<open>get_setting\<close> still returns \<^verbatim>\<open>True\<close>.
\<close>

theorem set_value_then_get_setting_on_SCHEMA:
  "set_value (Schema_init SCHEMA) (defaults (Schema_init SCHEMA)) ''ui.column'' (PBool False)
     = (Inl InvalidKey, defaults (Schema_init SCHEMA))
   \<and> get_setting (defaults (Schema_init SCHEMA)) ''ui.column'' T_object = Inr (PBool True)"
  by (simp add: set_value_def Schema_init_def SCHEMA_def parse_key_def defaults_def
      get_setting_def dict_getitem_def ui_column_def ui_column_width_def ui_theme_def
      user_name_def user_email_def anthropic_apikey_def openai_apikey_def)

text \<open>
  C2. For a key with a component that the schema does not have, \<^verbatim>\<open>set_value\<close> raises
  \<^verbatim>\<open>InvalidKey\<close> and leaves the values tree unchanged. The code raises \<^verbatim>\<open>InvalidKey\<close>, but for
  the one-component key \<^verbatim>\<open>bogus\<close> it has stored the value in the tree before raising.
\<close>

theorem set_value_unknown_key_on_SCHEMA:
  "set_value (Schema_init SCHEMA) [] ''bogus'' (PInt 1) = (Inl InvalidKey, [(''bogus'', PInt 1)])"
  by (simp add: set_value_def Schema_init_def SCHEMA_def parse_key_def)

text \<open>
  C3, as amended. \<^verbatim>\<open>defaults()\<close> decides on an object node by its \<^verbatim>\<open>fields\<close> list alone:
  among descriptors with distinct keys, the key of an object holds a nested dictionary, the
  defaults of its fields, exactly when its \<^verbatim>\<open>fields\<close> list is present and non-empty, whether
  or not any descendant declares a default, and is absent otherwise. The statement applies
  at every depth, since the nested dictionary is again the defaults of a descriptor list.
\<close>

theorem defaults_object_node:
  assumes "distinct (map sd_key sch)" and "sd \<in> set sch" and "sd_type sd = ''object''"
  shows "map_of (defaults (Schema_init sch)) (sd_key sd) =
           (case sd_fields sd of
              Some (f # fs) \<Rightarrow> Some (PDict (defaults (Schema_init (f # fs))))
            | _ \<Rightarrow> None)"
proof (cases "default_entry sd")
  case None
  have "\<forall>x \<in> set sch. sd_key x = sd_key sd \<longrightarrow> default_entry x = None"
    using assms(1,2) None by (auto simp: distinct_map dest: inj_onD)
  then have "map_of (set_defaults sch []) (sd_key sd) = None"
    by (simp add: map_of_set_defaults_unassigned)
  moreover from None assms(3) have "(case sd_fields sd of
       Some (f # fs) \<Rightarrow> Some (PDict (defaults (Schema_init (f # fs)))) | _ \<Rightarrow> None) = None"
    by (cases sd) (auto split: option.splits list.splits)
  ultimately show ?thesis
    by (simp add: defaults_def Schema_init_def)
next
  case (Some e)
  obtain k v where e: "e = (k, v)" by (cases e)
  from assms(1,2) have "effective sch (sd_key sd) = Some sd" by (rule effective_distinct)
  with Some e have "map_of (set_defaults sch []) (sd_key sd) = Some v"
    by (simp add: map_of_set_defaults_effective)
  moreover from Some e assms(3) have "(case sd_fields sd of
       Some (f # fs) \<Rightarrow> Some (PDict (defaults (Schema_init (f # fs)))) | _ \<Rightarrow> None) = Some v"
    by (cases sd) (auto simp: defaults_def Schema_init_def split: option.splits list.splits)
  ultimately show ?thesis
    by (simp add: defaults_def Schema_init_def)
qed

theorem defaults_object_node_witness:
  "distinct (map sd_key empty_groups_schema)
   \<and> hd empty_groups_schema \<in> set empty_groups_schema
   \<and> sd_type (hd empty_groups_schema) = ''object''
   \<and> map_of (defaults (Schema_init empty_groups_schema)) ''outer'' = Some (PDict [])"
proof -
  have h1: "distinct (map sd_key empty_groups_schema)"
    by (simp add: empty_groups_schema_def)
  have h2: "hd empty_groups_schema \<in> set empty_groups_schema"
    by (simp add: empty_groups_schema_def)
  have h3: "sd_type (hd empty_groups_schema) = ''object''"
    by (simp add: empty_groups_schema_def)
  from defaults_object_node [OF h1 h2 h3] h1 h2 h3 show ?thesis
    by (simp add: empty_groups_schema_def defaults_def Schema_init_def)
qed

text \<open>
  C3, as stated, fails: in a schema whose only top-level object has an empty object as its
  only child, no leaf exists, let alone one with a default, and yet the key of the
  top-level object is in the defaults, with an empty dictionary.
\<close>

theorem defaults_empty_groups_counterexample:
  "schema_leaves empty_groups_schema = []
   \<and> defaults (Schema_init empty_groups_schema) = [(''outer'', PDict [])]"
  by (simp add: schema_leaves_def empty_groups_schema_def defaults_def Schema_init_def)

text \<open>
  C4. For a schema that defines \<^verbatim>\<open>ui.column\<close> (boolean, default \<^verbatim>\<open>True\<close>) and
  \<^verbatim>\<open>ui.column-width\<close> (integer, default \<^verbatim>\<open>100\<close>, minimum \<^verbatim>\<open>40\<close>), whatever the titles and
  help texts, \<^verbatim>\<open>defaults()\<close> is \<^verbatim>\<open>{"ui": {"column": True, "column-width": 100}}\<close>, and on it
  \<^verbatim>\<open>get_setting\<close> with \<^verbatim>\<open>ui.column-width\<close> returns \<^verbatim>\<open>100\<close> for \<^verbatim>\<open>int\<close> and raises
  \<^verbatim>\<open>InvalidValue\<close> for \<^verbatim>\<open>str\<close>.
\<close>

theorem defaults_scenario:
  "(let tree = defaults (Schema_init
      [SchemaDict ''ui'' t ''object'' h None
         (Some [SchemaDict ''column'' t1 ''boolean'' h1 (Some (PBool True)) None v1,
                SchemaDict ''column-width'' t2 ''integer'' h2 (Some (PInt 100)) None
                  (Some [PDict [(''type'', PStr ''minimum''), (''value'', PInt 40)]])])
         None])
    in tree = [(''ui'', PDict [(''column'', PBool True), (''column-width'', PInt 100)])]
     \<and> get_setting tree ''ui.column-width'' T_int = Inr (PInt 100)
     \<and> get_setting tree ''ui.column-width'' T_str = Inl (InvalidValue T_str (PInt 100)))"
  by (simp add: defaults_def Schema_init_def get_setting_def parse_key_def dict_getitem_def
      Let_def)

text \<open>
  C5. For a schema definition whose keys contain no \<^verbatim>\<open>.\<close> and every key \<^verbatim>\<open>k\<close> of
  \<^verbatim>\<open>Schema.keys\<close>, \<^verbatim>\<open>get_setting(schema.defaults(), k, object)\<close> returns a value or raises
  \<^verbatim>\<open>KeyError\<close>; it does not raise \<^verbatim>\<open>InvalidKey\<close>.
\<close>

theorem get_setting_defaults_on_keys:
  assumes "dot_free sch" and "k \<in> set (fst (keys (Schema_init sch)))"
  shows "((\<exists>v. get_setting (defaults (Schema_init sch)) k T_object = Inr v)
          \<or> (\<exists>k'. get_setting (defaults (Schema_init sch)) k T_object = Inl (KeyError k')))
       \<and> get_setting (defaults (Schema_init sch)) k T_object \<noteq> Inl InvalidKey"
proof -
  from assms(2) have "k \<in> set (keys_body (settings_map_body sch))"
    by (simp add: keys_def settings_map_def Schema_init_def Let_def)
  then obtain k1 s where mem: "(k1, s) \<in> set (settings_map_body sch)"
    and kin: "k \<in> set (get_keys s)"
    by (auto simp: keys_body_def)
  from mem obtain sd where eff: "effective sch k1 = Some sd"
    and s: "s = build_settings (sd_key sd) sd"
    unfolding settings_map_body_items
    using built_child_effective [of k1 s "\<lambda>sd. build_settings (sd_key sd) sd" sch] by blast
  from eff have sd: "sd \<in> set sch" and k1: "sd_key sd = k1"
    by (simp_all add: effective_mem effective_key)
  from assms(1) sd have dfi: "dot_free_in sd"
    by (simp add: dot_free_def list_all_iff)
  then have nodot: "CHR ''.'' \<notin> set (sd_key sd)"
    by (cases sd) simp
  from kin s have "k \<in> set (get_keys (build_settings (sd_key sd) sd))"
    by simp
  from key_lookup [OF this dfi] eff k1
  obtain p where p: "k = dotted (sd_key sd) p"
    and pfree: "\<forall>x \<in> set p. CHR ''.'' \<notin> set x"
    and loop: "found_or_missing
        (get_setting_loop (set_defaults sch []) (loop_last (sd_key sd # p)) T_object)"
    by blast
  from nodot pfree have "parse_key k = sd_key sd # p"
    unfolding p by (rule parse_key_dotted)
  with loop show ?thesis
    by (auto simp: get_setting_def defaults_def Schema_init_def found_or_missing_def
             split: for_result.splits sum.splits error.splits)
qed

theorem get_setting_defaults_on_keys_witness:
  "dot_free SCHEMA
   \<and> ''user.name'' \<in> set (fst (keys (Schema_init SCHEMA)))
   \<and> ((\<exists>v. get_setting (defaults (Schema_init SCHEMA)) ''user.name'' T_object = Inr v)
        \<or> (\<exists>k'. get_setting (defaults (Schema_init SCHEMA)) ''user.name'' T_object
               = Inl (KeyError k')))
   \<and> get_setting (defaults (Schema_init SCHEMA)) ''user.name'' T_object \<noteq> Inl InvalidKey"
proof -
  have h: "''user.name'' \<in> set (fst (keys (Schema_init SCHEMA)))"
    by (simp add: keys_SCHEMA)
  from get_setting_defaults_on_keys [OF dot_free_SCHEMA h] dot_free_SCHEMA h show ?thesis
    by blast
qed

text \<open>
  C6. For a schema definition with keys unique among siblings and free of \<^verbatim>\<open>.\<close>, and a leaf
  with dotted key \<^verbatim>\<open>key\<close> that declares a default \<^verbatim>\<open>d\<close> (not \<^verbatim>\<open>None\<close>) of type \<^verbatim>\<open>T\<close>,
  \<^verbatim>\<open>get_setting(schema.defaults(), key, T)\<close> returns exactly \<^verbatim>\<open>d\<close>. Nothing is mutated on
  the way: \<^verbatim>\<open>defaults()\<close> builds its dictionary from the schema definition on every call
  and \<^verbatim>\<open>get_setting\<close> only reads, so both are functions of their arguments.
\<close>

theorem get_setting_defaults_roundtrip:
  assumes "unique_keys sch" and "dot_free sch"
    and "(key, leaf) \<in> set (schema_leaves sch)"
    and "sd_default leaf = Some dflt" and "dflt \<noteq> PNone" and "isinstance dflt T"
  shows "get_setting (defaults (Schema_init sch)) key T = Inr dflt"
proof -
  from assms(3) obtain sd where sd: "sd \<in> set sch"
    and mem: "(key, leaf) \<in> set (leaves_under (sd_key sd) sd)"
    by (auto simp: schema_leaves_def)
  from assms(2) sd have dfi: "dot_free_in sd"
    by (simp add: dot_free_def list_all_iff)
  then have nodot: "CHR ''.'' \<notin> set (sd_key sd)"
    by (cases sd) simp
  from leaf_lookup [OF assms(1) sd dfi mem assms(4,5,6), of "[]"]
  obtain p where p: "key = dotted (sd_key sd) p"
    and pfree: "\<forall>x \<in> set p. CHR ''.'' \<notin> set x"
    and loop: "get_setting_loop (set_defaults sch []) (loop_last (sd_key sd # p)) T
        = Left_function (Inr dflt)"
    by blast
  from nodot pfree have "parse_key key = sd_key sd # p"
    unfolding p by (rule parse_key_dotted)
  with loop show ?thesis
    by (simp add: get_setting_def defaults_def Schema_init_def)
qed

theorem get_setting_defaults_roundtrip_witness:
  "unique_keys SCHEMA \<and> dot_free SCHEMA
   \<and> (''ui.column-width'', ui_column_width) \<in> set (schema_leaves SCHEMA)
   \<and> sd_default ui_column_width = Some (PInt 100)
   \<and> PInt 100 \<noteq> PNone \<and> isinstance (PInt 100) T_int
   \<and> get_setting (defaults (Schema_init SCHEMA)) ''ui.column-width'' T_int = Inr (PInt 100)"
proof -
  have h3: "(''ui.column-width'', ui_column_width) \<in> set (schema_leaves SCHEMA)"
    by (simp add: schema_leaves_def SCHEMA_defs)
  have h4: "sd_default ui_column_width = Some (PInt 100)"
    by (simp add: ui_column_width_def)
  have h5: "PInt 100 \<noteq> PNone"
    by simp
  have h6: "isinstance (PInt 100) T_int"
    by simp
  from get_setting_defaults_roundtrip [OF unique_keys_SCHEMA dot_free_SCHEMA h3 h4 h5 h6]
    unique_keys_SCHEMA dot_free_SCHEMA h3 h4 h5 h6
  show ?thesis
    by blast
qed

text \<open>
  C7, as amended. For a schema definition with keys unique among siblings, \<^verbatim>\<open>Schema.keys\<close>
  is the sequence of the fully qualified keys of the terminal nodes, that is of the leaves
  and of the objects without fields, depth first and in declaration order; a second access
  returns the same sequence.
\<close>

theorem keys_are_terminal_keys:
  assumes "unique_keys sch"
  shows "fst (keys (Schema_init sch)) = terminal_keys sch
       \<and> fst (keys (snd (keys (Schema_init sch)))) = terminal_keys sch"
proof -
  from assms have dist: "distinct (map sd_key sch)" and all: "list_all unique_keys_in sch"
    by (simp_all add: unique_keys_def)
  have "settings_map_body sch = map (\<lambda>sd. (sd_key sd, build_settings (sd_key sd) sd)) sch"
    unfolding settings_map_body_items using dist
    by (intro dict_of_items_distinct) (simp add: comp_def)
  then have "keys_body (settings_map_body sch)
      = concat (map (\<lambda>sd. get_keys (build_settings (sd_key sd) sd)) sch)"
    by (simp add: keys_body_def comp_def)
  also have "map (\<lambda>sd. get_keys (build_settings (sd_key sd) sd)) sch
      = map (\<lambda>sd. terminal_keys_under (sd_key sd) sd) sch"
    using all by (simp add: list_all_iff get_keys_build_settings)
  finally have body: "keys_body (settings_map_body sch) = terminal_keys sch"
    by (simp add: terminal_keys_def)
  then show ?thesis
    by (simp add: keys_def settings_map_def Schema_init_def Let_def)
qed

theorem keys_are_terminal_keys_witness:
  "unique_keys SCHEMA
   \<and> fst (keys (Schema_init SCHEMA)) = terminal_keys SCHEMA
   \<and> fst (keys (snd (keys (Schema_init SCHEMA)))) = terminal_keys SCHEMA
   \<and> terminal_keys SCHEMA =
       [''ui.column'', ''ui.column-width'', ''ui.theme'', ''user.name'', ''user.email'',
        ''accounts.anthropic.apikey'', ''accounts.openai.apikey'']"
proof -
  have "terminal_keys SCHEMA =
       [''ui.column'', ''ui.column-width'', ''ui.theme'', ''user.name'', ''user.email'',
        ''accounts.anthropic.apikey'', ''accounts.openai.apikey'']"
    by (simp add: terminal_keys_def SCHEMA_defs)
  with keys_are_terminal_keys [OF unique_keys_SCHEMA] unique_keys_SCHEMA show ?thesis
    by blast
qed

text \<open>
  C7, as stated, fails: the schema whose only top-level object has an empty object as its
  only child has no leaf, and its \<^verbatim>\<open>keys\<close> hold the key of the empty object.
\<close>

theorem keys_empty_groups_counterexample:
  "map fst (schema_leaves empty_groups_schema) = []
   \<and> fst (keys (Schema_init empty_groups_schema)) = [''outer.inner'']"
  by (simp add: schema_leaves_def empty_groups_schema_def keys_def settings_map_def
      Schema_init_def settings_map_body_def keys_body_def dict_of_items_def Let_def)

text \<open>
  How \<^const>\<open>expandvars\<close> treats text without \<^verbatim>\<open>$\<close>, a reference \<^verbatim>\<open>$NAME\<close>, a braced reference
  \<^verbatim>\<open>${NAME}\<close> and a brace that is never closed.
\<close>

lemma expandvars_plain_prefix:
  "CHR ''$'' \<notin> set pre \<Longrightarrow> expandvars environ (pre @ s) = pre @ expandvars environ s"
  by (induction pre) auto

lemma word_char_not_brace: "is_word_char c \<Longrightarrow> c \<noteq> CHR ''{''"
  by (auto simp: is_word_char_def)

lemma takeWhile_name:
  assumes "list_all P name" and "post = [] \<or> \<not> P (hd post)"
  shows "takeWhile P (name @ post) = name" and "dropWhile P (name @ post) = post"
proof -
  from assms(2) have "takeWhile P post = []" and "dropWhile P post = post"
    by (cases post; auto)+
  with assms(1) show "takeWhile P (name @ post) = name" and "dropWhile P (name @ post) = post"
    by (simp_all add: list_all_iff takeWhile_append2 dropWhile_append2)
qed

lemma expandvars_name:
  assumes "name \<noteq> []" and "list_all is_word_char name"
    and "post = [] \<or> \<not> is_word_char (hd post)"
  shows "expandvars environ (CHR ''$'' # name @ post) =
           (case environ name of None \<Rightarrow> CHR ''$'' # name | Some val \<Rightarrow> val)
             @ expandvars environ post"
proof -
  from assms(1,2) have "hd (name @ post) \<noteq> CHR ''{''"
    by (cases name) (auto dest: word_char_not_brace)
  moreover note takeWhile_name [OF assms(2,3)]
  ultimately show ?thesis
    using assms(1) by (simp split: option.splits)
qed

lemma expandvars_braced:
  assumes "CHR ''}'' \<notin> set bname"
  shows "expandvars environ (''${'' @ bname @ CHR ''}'' # post) =
           (case environ bname of None \<Rightarrow> ''${'' @ bname @ ''}'' | Some val \<Rightarrow> val)
             @ expandvars environ post"
proof -
  from assms have "takeWhile (\<lambda>x. x \<noteq> CHR ''}'') (bname @ CHR ''}'' # post) = bname"
    by (induction bname) auto
  moreover from assms
  have "dropWhile (\<lambda>x. x \<noteq> CHR ''}'') (bname @ CHR ''}'' # post) = CHR ''}'' # post"
    by (induction bname) auto
  ultimately show ?thesis
    by (simp split: option.splits)
qed

lemma expandvars_unclosed_brace:
  "CHR ''}'' \<notin> set rest
     \<Longrightarrow> expandvars environ (''${'' @ rest) = CHR ''$'' # expandvars environ (CHR ''{'' # rest)"
proof -
  assume "CHR ''}'' \<notin> set rest"
  then have "dropWhile (\<lambda>x. x \<noteq> CHR ''}'') rest = []"
    by (induction rest) auto
  then show ?thesis
    by simp
qed

lemma expandvars_unclosed_brace_example:
  "environ ''USER'' = Some ''alice'' \<Longrightarrow> expandvars environ ''${USER $USER'' = ''${USER alice''"
  by (simp add: is_word_char_def)

text \<open>
  C8. \<^verbatim>\<open>Settings.get\<close> expands a textual result against the environment of the call:
  whenever \<^verbatim>\<open>get_setting\<close> resolves the key to a string, \<^verbatim>\<open>get\<close> returns that string expanded.
  In the expansion, a reference \<^verbatim>\<open>$NAME\<close> (the name being the whole run of word characters
  after the \<^verbatim>\<open>$\<close>) or \<^verbatim>\<open>${NAME}\<close> that follows text without \<^verbatim>\<open>$\<close> is replaced by the value of
  \<^verbatim>\<open>NAME\<close> in the environment when it has one and is left as it is when it has none, and the
  expansion goes on with the text after the reference. In particular, with the values tree
  \<^verbatim>\<open>{"user": {"name": "$USER"}}\<close> and \<^verbatim>\<open>USER=alice\<close>, \<^verbatim>\<open>get("user.name", str)\<close> returns
  \<^verbatim>\<open>"alice"\<close>, and \<^verbatim>\<open>$UNSET_VAR\<close> with no such variable is returned as it is.
\<close>

theorem Settings_get_expands:
  "(get_setting vals key T = Inr (PStr s) \<longrightarrow>
      Settings_get environ (Settings_init sch vals) key T = Inr (PStr (expandvars environ s)))
   \<and> (CHR ''$'' \<notin> set pre \<and> name \<noteq> [] \<and> list_all is_word_char name
        \<and> (post = [] \<or> \<not> is_word_char (hd post)) \<longrightarrow>
      expandvars environ (pre @ CHR ''$'' # name @ post) =
        pre @ (case environ name of None \<Rightarrow> CHR ''$'' # name | Some val \<Rightarrow> val)
          @ expandvars environ post)
   \<and> (CHR ''$'' \<notin> set pre \<and> CHR ''}'' \<notin> set bname \<longrightarrow>
      expandvars environ (pre @ ''${'' @ bname @ CHR ''}'' # post) =
        pre @ (case environ bname of None \<Rightarrow> ''${'' @ bname @ ''}'' | Some val \<Rightarrow> val)
          @ expandvars environ post)
   \<and> (environ ''USER'' = Some ''alice'' \<longrightarrow>
      Settings_get environ (Settings_init sch [(''user'', PDict [(''name'', PStr ''$USER'')])])
        ''user.name'' T_str = Inr (PStr ''alice''))
   \<and> (environ ''UNSET_VAR'' = None \<longrightarrow>
      Settings_get environ
        (Settings_init sch [(''user'', PDict [(''name'', PStr ''$UNSET_VAR'')])])
        ''user.name'' T_str = Inr (PStr ''$UNSET_VAR''))"
proof (intro conjI impI)
  assume "get_setting vals key T = Inr (PStr s)"
  then show "Settings_get environ (Settings_init sch vals) key T
      = Inr (PStr (expandvars environ s))"
    by (simp add: Settings_get_def Settings_init_def)
next
  assume h: "CHR ''$'' \<notin> set pre \<and> name \<noteq> [] \<and> list_all is_word_char name
      \<and> (post = [] \<or> \<not> is_word_char (hd post))"
  then have "expandvars environ (pre @ CHR ''$'' # name @ post) =
      pre @ expandvars environ (CHR ''$'' # name @ post)"
    by (intro expandvars_plain_prefix) simp
  also from h have "expandvars environ (CHR ''$'' # name @ post) =
      (case environ name of None \<Rightarrow> CHR ''$'' # name | Some val \<Rightarrow> val)
        @ expandvars environ post"
    by (intro expandvars_name) simp_all
  finally show "expandvars environ (pre @ CHR ''$'' # name @ post) =
      pre @ (case environ name of None \<Rightarrow> CHR ''$'' # name | Some val \<Rightarrow> val)
        @ expandvars environ post" .
next
  assume h: "CHR ''$'' \<notin> set pre \<and> CHR ''}'' \<notin> set bname"
  then have "expandvars environ (pre @ ''${'' @ bname @ CHR ''}'' # post) =
      pre @ expandvars environ (''${'' @ bname @ CHR ''}'' # post)"
    by (intro expandvars_plain_prefix) simp
  also from h have "expandvars environ (''${'' @ bname @ CHR ''}'' # post) =
      (case environ bname of None \<Rightarrow> ''${'' @ bname @ ''}'' | Some val \<Rightarrow> val)
        @ expandvars environ post"
    by (intro expandvars_braced) simp
  finally show "expandvars environ (pre @ ''${'' @ bname @ CHR ''}'' # post) =
      pre @ (case environ bname of None \<Rightarrow> ''${'' @ bname @ ''}'' | Some val \<Rightarrow> val)
        @ expandvars environ post" .
next
  assume "environ ''USER'' = Some ''alice''"
  then show "Settings_get environ
      (Settings_init sch [(''user'', PDict [(''name'', PStr ''$USER'')])])
      ''user.name'' T_str = Inr (PStr ''alice'')"
    by (simp add: Settings_get_def Settings_init_def get_setting_def parse_key_def
        dict_getitem_def is_word_char_def)
next
  assume "environ ''UNSET_VAR'' = None"
  then show "Settings_get environ
      (Settings_init sch [(''user'', PDict [(''name'', PStr ''$UNSET_VAR'')])])
      ''user.name'' T_str = Inr (PStr ''$UNSET_VAR'')"
    by (simp add: Settings_get_def Settings_init_def get_setting_def parse_key_def
        dict_getitem_def is_word_char_def)
qed

theorem Settings_get_expands_witness:
  "Settings_get [''USER'' \<mapsto> ''alice'']
     (Settings_init (Schema_init SCHEMA) [(''user'', PDict [(''name'', PStr ''$USER'')])])
     ''user.name'' T_str = Inr (PStr ''alice'')
   \<and> Settings_get [''USER'' \<mapsto> ''alice'']
     (Settings_init (Schema_init SCHEMA) [(''user'', PDict [(''name'', PStr ''$UNSET_VAR'')])])
     ''user.name'' T_str = Inr (PStr ''$UNSET_VAR'')
   \<and> expandvars [''USER'' \<mapsto> ''alice''] ''Hello $USER!'' = ''Hello alice!''
   \<and> expandvars [''USER'' \<mapsto> ''alice''] ''Hello $NOBODY!'' = ''Hello $NOBODY!''
   \<and> expandvars [''USER'' \<mapsto> ''alice''] ''/home/${USER}x'' = ''/home/alicex''
   \<and> expandvars [''USER'' \<mapsto> ''alice''] ''/home/${NOBODY}x'' = ''/home/${NOBODY}x''"
proof -
  note inst = Settings_get_expands [where environ = "[''USER'' \<mapsto> ''alice'']"
      and sch = "Schema_init SCHEMA"]
  have a: "expandvars [''USER'' \<mapsto> ''alice''] ''Hello $USER!'' = ''Hello alice!''"
    using inst [where pre = "''Hello ''" and name = "''USER''" and post = "''!''"]
    by (simp add: is_word_char_def)
  have b: "expandvars [''USER'' \<mapsto> ''alice''] ''Hello $NOBODY!'' = ''Hello $NOBODY!''"
    using inst [where pre = "''Hello ''" and name = "''NOBODY''" and post = "''!''"]
    by (simp add: is_word_char_def)
  have c: "expandvars [''USER'' \<mapsto> ''alice''] ''/home/${USER}x'' = ''/home/alicex''"
    using inst [where pre = "''/home/''" and bname = "''USER''" and post = "''x''"]
    by simp
  have d: "expandvars [''USER'' \<mapsto> ''alice''] ''/home/${NOBODY}x'' = ''/home/${NOBODY}x''"
    using inst [where pre = "''/home/''" and bname = "''NOBODY''" and post = "''x''"]
    by simp
  from inst a b c d show ?thesis
    by simp
qed

text \<open>
  C9. \<^verbatim>\<open>Schema.settings_map\<close> is memoized: after a first access, a second access on the
  resulting instance returns the value the first one produced and leaves the instance as
  it is; the value is the one stored in the instance, and it is returned without running
  the body again, even for an instance whose schema definition has been replaced.
\<close>

theorem settings_map_memoized:
  assumes "settings_map self = (m, self1)"
  shows "settings_map self1 = (m, self1)
       \<and> cached_settings_map self1 = Some m
       \<and> settings_map (self1\<lparr>schema := sch'\<rparr>) = (m, self1\<lparr>schema := sch'\<rparr>)"
  using assms by (auto simp: settings_map_def Let_def split: option.splits)

theorem settings_map_memoized_witness:
  "settings_map (Schema_init empty_groups_schema)
     = (settings_map_body empty_groups_schema,
        (Schema_init empty_groups_schema)
          \<lparr>cached_settings_map := Some (settings_map_body empty_groups_schema)\<rparr>)
   \<and> settings_map ((Schema_init empty_groups_schema)
          \<lparr>cached_settings_map := Some (settings_map_body empty_groups_schema)\<rparr>)
     = (settings_map_body empty_groups_schema,
        (Schema_init empty_groups_schema)
          \<lparr>cached_settings_map := Some (settings_map_body empty_groups_schema)\<rparr>)"
proof -
  have first: "settings_map (Schema_init empty_groups_schema)
     = (settings_map_body empty_groups_schema,
        (Schema_init empty_groups_schema)
          \<lparr>cached_settings_map := Some (settings_map_body empty_groups_schema)\<rparr>)"
    by (simp add: settings_map_def Schema_init_def Let_def)
  from settings_map_memoized [OF first] first show ?thesis
    by simp
qed

end
